theory Spec2Isabelle
  imports Main
begin

section \<open>The lending ledger\<close>

text \<open>
  The dictionaries of the kiosk program become records and maps. A time value is kept as
  the number of seconds that \<^verbatim>\<open>time.mktime\<close> gives for it: the program never reads a time
  in any other way than through \<^verbatim>\<open>time.mktime\<close>, except when it prints a date.
\<close>

record user =
  name :: string
  role :: string
  password :: string

record book =
  title :: string
  total :: int
  available :: int

record borrowing =
  isbn :: string
  issue_time :: int

record ledger =
  books_db :: "string \<rightharpoonup> book"
  borrowings :: "string \<rightharpoonup> borrowing list"

text \<open>The testing configuration at the head of the program.\<close>

definition now_time :: int where
  \<comment> \<open>\<^verbatim>\<open>time.mktime\<close> of 6 February 2026, 20:30:00, counted from 1970\<close>
  "now_time = 1770409800"

definition test_delay_seconds :: int where
  "test_delay_seconds = 17 * 86400"

text \<open>The database.\<close>

definition users_list :: "(string \<times> user) list" where
  "users_list =
    [(''01'', \<lparr>name = ''Amit Sharma'', role = ''Student'', password = ''1234''\<rparr>),
     (''02'', \<lparr>name = ''Priya Verma'', role = ''Student'', password = ''5678''\<rparr>)]"

definition users_db :: "string \<rightharpoonup> user" where
  "users_db = map_of users_list"

definition books_list :: "(string \<times> book) list" where
  "books_list =
    [(''978-1'', \<lparr>title = ''Python Basics'', total = 5, available = 5\<rparr>),
     (''978-2'', \<lparr>title = ''Adv. Circuits'', total = 3, available = 3\<rparr>),
     (''978-3'', \<lparr>title = ''Data Science'', total = 4, available = 2\<rparr>),
     (''978-4'', \<lparr>title = ''ESP32 Guide'', total = 6, available = 6\<rparr>),
     (''978-5'', \<lparr>title = ''Calculus II'', total = 2, available = 1\<rparr>)]"

definition book_keys :: "string list" where
  "book_keys = map fst books_list"

definition init_ledger :: ledger where
  "init_ledger = \<lparr>books_db = map_of books_list, borrowings = Map.empty\<rparr>"

text \<open>
  The two ledger functions return a header, a message and a fine. The message is kept as
  the data that the program formats into its text, one constructor for each text.
\<close>

datatype message =
    User_ID_Not_Found
  | Book_Not_Found
  | Issued string int int
  | No_copies_left
  | Returned string int int
  | You_dont_have_this_book
  | No_borrowings

type_synonym outcome = "string \<times> message \<times> int"

text \<open>
  The clock \<^verbatim>\<open>now_time\<close> is a global of the program; the functions below take it as the
  argument \<open>now\<close>, so that what is proved holds for every value of the clock.
\<close>

definition calculate_days :: "int \<Rightarrow> int \<Rightarrow> int" where
  "calculate_days now issue_t =
     (let issue_sec = issue_t;
          now_sec = now + test_delay_seconds
      in (now_sec - issue_sec) div 86400)"

definition held :: "ledger \<Rightarrow> string \<Rightarrow> borrowing list" where
  "held L user_id = (case borrowings L user_id of None \<Rightarrow> [] | Some bs \<Rightarrow> bs)"

definition issue_book_logic :: "int \<Rightarrow> string \<Rightarrow> string \<Rightarrow> ledger \<Rightarrow> outcome \<times> ledger" where
  "issue_book_logic now user_id i L =
     (if users_db user_id = None then ((''ERROR'', User_ID_Not_Found, 0), L)
      else case books_db L i of
        None \<Rightarrow> ((''ERROR'', Book_Not_Found, 0), L)
      | Some bk \<Rightarrow>
          if available bk > 0 then
            (let bk' = bk\<lparr>available := available bk - 1\<rparr>;
                 issue_t = now;
                 bs = held L user_id @ [\<lparr>isbn = i, issue_time = issue_t\<rparr>];
                 due_time = issue_t + 15 * 86400
             in ((''SUCCESS!'', Issued (title bk') due_time (available bk'), 0),
                 L\<lparr>books_db := (books_db L)(i \<mapsto> bk'),
                   borrowings := (borrowings L)(user_id \<mapsto> bs)\<rparr>))
          else ((''OOPS!'', No_copies_left, 0), L))"

definition return_book_logic :: "int \<Rightarrow> string \<Rightarrow> string \<Rightarrow> ledger \<Rightarrow> outcome \<times> ledger" where
  "return_book_logic now user_id i L =
     (case books_db L i of
        None \<Rightarrow> ((''ERROR'', Book_Not_Found, 0), L)
      | Some bk \<Rightarrow>
          (case borrowings L user_id of
             None \<Rightarrow> ((''ERROR'', No_borrowings, 0), L)
           | Some bs \<Rightarrow>
               (case find (\<lambda>b. isbn b = i) bs of
                  None \<Rightarrow> ((''ERROR'', You_dont_have_this_book, 0), L)
                | Some b \<Rightarrow>
                    (let days = calculate_days now (issue_time b);
                         delay = days - 15;
                         fine = max 0 delay * 15;
                         bk' = bk\<lparr>available := available bk + 1\<rparr>;
                         bs' = remove1 b bs;
                         brs = (if bs' = [] then (borrowings L)(user_id := None)
                                else (borrowings L)(user_id \<mapsto> bs'))
                     in ((''RETURNED'', Returned (title bk') fine (available bk'), fine),
                         L\<lparr>books_db := (books_db L)(i \<mapsto> bk'), borrowings := brs\<rparr>)))))"

text \<open>A run of the ledger: any sequence of issue and return calls, each at its own time.\<close>

datatype op = Issue int string string | Return int string string

fun apply_op :: "ledger \<Rightarrow> op \<Rightarrow> ledger" where
  "apply_op L (Issue now u i) = snd (issue_book_logic now u i L)"
| "apply_op L (Return now u i) = snd (return_book_logic now u i L)"

definition run :: "op list \<Rightarrow> ledger" where
  "run ops = foldl apply_op init_ledger ops"

text \<open>
  What the proofs below count: the borrowings a user holds of one book, and the copies
  of a book that are out with the provisioned users. \<open>ledger_inv\<close> is the invariant that
  every run keeps; \<open>issued\<close> and \<open>returned\<close> name the state after a successful call.
\<close>

definition count_held :: "ledger \<Rightarrow> string \<Rightarrow> string \<Rightarrow> nat" where
  "count_held L u i = length (filter (\<lambda>b. isbn b = i) (held L u))"

definition on_loan :: "ledger \<Rightarrow> string \<Rightarrow> nat" where
  "on_loan L i = sum_list (map (\<lambda>u. count_held L u i) (map fst users_list))"

definition ledger_inv :: "ledger \<Rightarrow> bool" where
  "ledger_inv L \<longleftrightarrow>
     (\<forall>u. borrowings L u \<noteq> None \<longrightarrow> users_db u \<noteq> None) \<and>
     (\<forall>i. (books_db L i = None) = (map_of books_list i = None)) \<and>
     (\<forall>i bk bk0. books_db L i = Some bk \<longrightarrow> map_of books_list i = Some bk0 \<longrightarrow>
        total bk = total bk0 \<and> 0 \<le> available bk \<and>
        available bk + int (on_loan L i) = available bk0) \<and>
     (\<forall>u bs. borrowings L u = Some bs \<longrightarrow>
        bs \<noteq> [] \<and> (\<forall>b\<in>set bs. map_of books_list (isbn b) \<noteq> None))"

definition issued :: "int \<Rightarrow> string \<Rightarrow> string \<Rightarrow> book \<Rightarrow> ledger \<Rightarrow> ledger" where
  "issued now u i bk L =
     L\<lparr>books_db := (books_db L)(i \<mapsto> bk\<lparr>available := available bk - 1\<rparr>),
       borrowings := (borrowings L)(u \<mapsto> held L u @ [\<lparr>isbn = i, issue_time = now\<rparr>])\<rparr>"

definition returned :: "string \<Rightarrow> string \<Rightarrow> book \<Rightarrow> borrowing list \<Rightarrow> borrowing \<Rightarrow> ledger \<Rightarrow> ledger" where
  "returned u i bk bs b L =
     L\<lparr>books_db := (books_db L)(i \<mapsto> bk\<lparr>available := available bk + 1\<rparr>),
       borrowings := (if remove1 b bs = [] then (borrowings L)(u := None)
                      else (borrowings L)(u \<mapsto> remove1 b bs))\<rparr>"

section \<open>The session: PIN entry and the scan state\<close>

text \<open>
  The variables of the main loop that the branches below read or write. States are the
  numbers of the program: 3 is the identifier entry, 4 the PIN entry, 0 the menu, 1 the
  manual selection, 5 the book confirmation, 2 the result, 7 the payment code, 6 the scan.
  The text of each digit label is kept as a string, as the label holds it. Screens,
  label colours and pauses belong to the display and are left out.
\<close>

record session =
  current_state :: int
  current_user :: string
  temp_user_id :: string
  current_mode :: string
  current_fine :: int
  selected_isbn :: string
  id_pos :: int
  pin_pos :: int
  menu_index :: int
  book_index :: int
  confirm_index :: int
  id_digits :: "string list"
  pin_digits :: "string list"

text \<open>
  The branch of state 4 for the OK button. The lookup of \<^verbatim>\<open>temp_user_id\<close> in the user
  table raises \<^verbatim>\<open>KeyError\<close> for an unknown identifier: that is the result \<open>None\<close>.
\<close>

definition pin_confirm :: "session \<Rightarrow> session option" where
  "pin_confirm s =
     (let entered = concat (pin_digits s) in
      case users_db (temp_user_id s) of
        None \<Rightarrow> None
      | Some usr \<Rightarrow>
          if entered = password usr then
            Some (s\<lparr>current_user := temp_user_id s, menu_index := 0, current_state := 0\<rparr>)
          else
            Some (s\<lparr>pin_digits := map (\<lambda>d. ''0'') (pin_digits s), pin_pos := 0\<rparr>))"

text \<open>
  The camera setup at startup. The camera object is bound to \<^verbatim>\<open>cam\<close> first, the decoder
  to \<^verbatim>\<open>qrdecoder\<close> last, inside one \<^verbatim>\<open>try\<close>; what both variables hold afterwards depends
  on the statement that raised, if any did.
\<close>

datatype camera = Camera
datatype decoder = QRDecoder

datatype setup_event = Setup_succeeds | Camera_raises | Later_statement_raises

fun camera_setup :: "setup_event \<Rightarrow> camera option \<times> decoder option" where
  "camera_setup Setup_succeeds = (Some Camera, Some QRDecoder)"
| "camera_setup Camera_raises = (None, None)"
| "camera_setup Later_statement_raises = (Some Camera, None)"

text \<open>
  A payload is a list of bytes. \<^verbatim>\<open>str\<close> of a bytes object is its literal: the letter b, a
  quote, the bytes with the unprintable ones escaped, and the quote again.
\<close>

type_synonym bytes = "char list"

definition bytes_quote :: "bytes \<Rightarrow> char" where
  "bytes_quote p = (if CHR 0x27 \<in> set p \<and> CHR 0x22 \<notin> set p then CHR 0x22 else CHR 0x27)"

definition hex_digit :: "nat \<Rightarrow> char" where
  "hex_digit n = ''0123456789abcdef'' ! n"

definition escape_byte :: "char \<Rightarrow> char \<Rightarrow> string" where
  "escape_byte q c =
     (if c = q then [CHR 0x5C, q]
      else if c = CHR 0x5C then [CHR 0x5C, CHR 0x5C]
      else if 32 \<le> (of_char c :: nat) \<and> (of_char c :: nat) < 127 then [c]
      else if c = CHR 0x0A then [CHR 0x5C, CHR ''n'']
      else if c = CHR 0x0D then [CHR 0x5C, CHR ''r'']
      else if c = CHR 0x09 then [CHR 0x5C, CHR ''t'']
      else [CHR 0x5C, CHR ''x'', hex_digit (of_char c div 16), hex_digit (of_char c mod 16)])"

definition str_bytes :: "bytes \<Rightarrow> string" where
  "str_bytes p =
     (let q = bytes_quote p in CHR ''b'' # q # concat (map (escape_byte q) p) @ [q])"

text \<open>
  The inner \<^verbatim>\<open>try\<close> of the scan loop. The UTF-8 decoder of the runtime is the argument
  \<open>utf8\<close>; it gives \<open>None\<close> where \<^verbatim>\<open>payload.decode("utf-8")\<close> raises.
\<close>

definition decode_payload :: "(bytes \<Rightarrow> string option) \<Rightarrow> bytes \<Rightarrow> string" where
  "decode_payload utf8 payload =
     (case utf8 payload of Some text \<Rightarrow> text | None \<Rightarrow> str_bytes payload)"

text \<open>The truth value of \<^verbatim>\<open>found_data\<close>: \<^verbatim>\<open>None\<close> and the empty string are false.\<close>

fun truthy :: "string option \<Rightarrow> bool" where
  "truthy None = False"
| "truthy (Some text) = (text \<noteq> [])"

text \<open>
  What one turn of the scan loop meets: an exception in the capture of the frame or in
  the sending of it, or a frame, with the payloads that the decoder finds in it and the
  state of the left button when the turn polls it. The loop has no bound of its own, so
  the model runs it on a list of turns and gives \<open>None\<close> when the list ends before the
  loop does. A result is the value of \<^verbatim>\<open>found_data\<close>, the number of calls of
  \<^verbatim>\<open>cam.take\<close>, and the way the function ended.
\<close>

datatype scan_event = Capture_raises | Frame "bytes list" bool

datatype scan_exit = No_camera | Exit_error | Exit_found | Exit_cancel

type_synonym scan_result = "string option \<times> nat \<times> scan_exit"

fun scan_loop :: "decoder option \<Rightarrow> (bytes \<Rightarrow> string option) \<Rightarrow> string option \<Rightarrow> nat \<Rightarrow>
    scan_event list \<Rightarrow> scan_result option" where
  "scan_loop qrdecoder utf8 found_data n [] = None"
| "scan_loop qrdecoder utf8 found_data n (Capture_raises # es) =
     Some (found_data, Suc n, Exit_error)"
| "scan_loop qrdecoder utf8 found_data n (Frame rows left # es) =
     (case qrdecoder of
        None \<Rightarrow> Some (found_data, Suc n, Exit_error)
      | Some d \<Rightarrow>
          (let found = foldl (\<lambda>f payload. Some (decode_payload utf8 payload)) found_data rows
           in if truthy found then Some (found, Suc n, Exit_found)
              else if left then Some (found, Suc n, Exit_cancel)
              else scan_loop qrdecoder utf8 found (Suc n) es))"

definition perform_scan :: "camera option \<Rightarrow> decoder option \<Rightarrow> (bytes \<Rightarrow> string option) \<Rightarrow>
    scan_event list \<Rightarrow> scan_result option" where
  "perform_scan cam qrdecoder utf8 es =
     (case cam of
        None \<Rightarrow> Some (None, 0, No_camera)
      | Some c \<Rightarrow> scan_loop qrdecoder utf8 None 0 es)"

text \<open>The branch of state 6, given what the scan returned.\<close>

definition scan_state :: "string option \<Rightarrow> ledger \<Rightarrow> session \<Rightarrow> session" where
  "scan_state scanned_code L s =
     (case (if truthy scanned_code then scanned_code else None) of
        Some code \<Rightarrow>
          (if books_db L code \<noteq> None then
             s\<lparr>selected_isbn := code, confirm_index := 0, current_state := 5\<rparr>
           else s\<lparr>current_state := 0\<rparr>)
      | None \<Rightarrow> s\<lparr>book_index := 0, current_state := 1\<rparr>)"

text \<open>State 6 as a whole: the scan, then the branch on what it returned.\<close>

definition state6 :: "camera option \<Rightarrow> decoder option \<Rightarrow> (bytes \<Rightarrow> string option) \<Rightarrow>
    scan_event list \<Rightarrow> ledger \<Rightarrow> session \<Rightarrow> session option" where
  "state6 cam qrdecoder utf8 es L s =
     (case perform_scan cam qrdecoder utf8 es of
        None \<Rightarrow> None
      | Some (scanned_code, n, e) \<Rightarrow> Some (scan_state scanned_code L s))"

text \<open>
  A decoder for the closed examples. It reads an ASCII payload as itself, as every UTF-8
  decoder does, and rejects every other payload; the byte 0xFF, which the examples use,
  occurs in no UTF-8 text.
\<close>

definition ascii_decode :: "bytes \<Rightarrow> string option" where
  "ascii_decode p = (if list_all (\<lambda>c. (of_char c :: nat) < 128) p then Some p else None)"

text \<open>
  The session as the main program sets it up before the loop. The program binds
  \<^verbatim>\<open>temp_user_id\<close> and \<^verbatim>\<open>current_mode\<close> only later, in the branches that lead to the
  states reading them; here they start as empty strings.
\<close>

definition session0 :: session where
  "session0 = \<lparr>current_state = 3, current_user = [], temp_user_id = [], current_mode = [],
     current_fine = 0, selected_isbn = [], id_pos = 0, pin_pos = 0, menu_index = 0,
     book_index = 0, confirm_index = 0, id_digits = [''0'', ''0''],
     pin_digits = [''0'', ''0'', ''0'', ''0'']\<rparr>"

text \<open>Two sessions in the PIN entry for user 01, with 9999 and with 1234 on the labels.\<close>

definition pin_9999 :: session where
  "pin_9999 = session0\<lparr>current_state := 4, temp_user_id := ''01'', pin_pos := 3,
      pin_digits := [''9'', ''9'', ''9'', ''9'']\<rparr>"

definition pin_1234 :: session where
  "pin_1234 = session0\<lparr>current_state := 4, temp_user_id := ''01'', pin_pos := 3,
      pin_digits := [''1'', ''2'', ''3'', ''4'']\<rparr>"

section \<open>The invariant of the ledger\<close>

lemma users_dom: "users_db u \<noteq> None \<Longrightarrow> u = ''01'' \<or> u = ''02''"
  by (simp add: users_db_def users_list_def split: if_splits)

lemma on_loan_eq: "on_loan L i = count_held L ''01'' i + count_held L ''02'' i"
  by (simp add: on_loan_def users_list_def)

lemma books_total: "map_of books_list i = Some bk0 \<Longrightarrow> available bk0 \<le> total bk0"
  by (auto simp: books_list_def split: if_splits)

lemma inv_init: "ledger_inv init_ledger"
  by (auto simp: ledger_inv_def init_ledger_def on_loan_eq count_held_def held_def books_list_def split: if_splits)

lemma filter_remove1_len:
  "b \<in> set bs \<Longrightarrow> length (filter P (remove1 b bs)) + (if P b then 1 else 0) = length (filter P bs)"
  by (induction bs) auto

lemma find_SomeD: "find P xs = Some x \<Longrightarrow> x \<in> set xs \<and> P x"
  by (induction xs) (auto split: if_splits)

lemma find_NoneD: "find P xs = None \<Longrightarrow> \<forall>x\<in>set xs. \<not> P x"
  by (induction xs) (auto split: if_splits)

lemma issue_cases:
  "snd (issue_book_logic now u i L) = L \<or>
   (users_db u \<noteq> None \<and> (\<exists>bk. books_db L i = Some bk \<and> 0 < available bk \<and>
      snd (issue_book_logic now u i L) = issued now u i bk L))"
  by (auto simp: issue_book_logic_def issued_def Let_def split: option.splits)

lemma held_issued:
  "held (issued now u i bk L) v = (if v = u then held L u @ [\<lparr>isbn = i, issue_time = now\<rparr>] else held L v)"
  by (simp add: held_def issued_def)

lemma count_held_issued:
  "count_held (issued now u i bk L) v j = count_held L v j + (if v = u \<and> j = i then 1 else 0)"
  by (simp add: count_held_def held_issued)

lemma on_loan_issued:
  "users_db u \<noteq> None \<Longrightarrow>
   on_loan (issued now u i bk L) j = on_loan L j + (if j = i then 1 else 0)"
  using users_dom[of u] by (auto simp: on_loan_eq count_held_issued)

lemma books_issued:
  "books_db (issued now u i bk L) j =
     (if j = i then Some (bk\<lparr>available := available bk - 1\<rparr>) else books_db L j)"
  by (simp add: issued_def)

lemma borrowings_issued:
  "borrowings (issued now u i bk L) v =
     (if v = u then Some (held L u @ [\<lparr>isbn = i, issue_time = now\<rparr>]) else borrowings L v)"
  by (simp add: issued_def)

lemma inv_issued:
  assumes inv: "ledger_inv L" and u: "users_db u \<noteq> None"
    and bk: "books_db L i = Some bk" and av: "0 < available bk"
  shows "ledger_inv (issued now u i bk L)"
proof -
  let ?L' = "issued now u i bk L"
  from inv have d1: "\<And>v. borrowings L v \<noteq> None \<Longrightarrow> users_db v \<noteq> None"
    and d2: "\<And>j. (books_db L j = None) = (map_of books_list j = None)"
    and cnt: "\<And>j b b0. books_db L j = Some b \<Longrightarrow> map_of books_list j = Some b0 \<Longrightarrow>
        total b = total b0 \<and> 0 \<le> available b \<and> available b + int (on_loan L j) = available b0"
    and ne: "\<And>v bs. borrowings L v = Some bs \<Longrightarrow>
        bs \<noteq> [] \<and> (\<forall>b\<in>set bs. map_of books_list (isbn b) \<noteq> None)"
    by (auto simp: ledger_inv_def)
  from bk d2[of i] have idom: "map_of books_list i \<noteq> None" by simp
  have a: "users_db v \<noteq> None" if "borrowings ?L' v \<noteq> None" for v
    using that d1[of v] u by (simp add: borrowings_issued split: if_splits)
  have b: "(books_db ?L' j = None) = (map_of books_list j = None)" for j
    using d2[of j] idom by (simp add: books_issued)
  have c: "total b = total b0 \<and> 0 \<le> available b \<and> available b + int (on_loan ?L' j) = available b0"
    if "books_db ?L' j = Some b" "map_of books_list j = Some b0" for j b b0
  proof (cases "j = i")
    case True
    with that have "b = bk\<lparr>available := available bk - 1\<rparr>" by (simp add: books_issued)
    moreover from cnt[OF bk] that True
    have "total bk = total b0 \<and> available bk + int (on_loan L i) = available b0" by simp
    ultimately show ?thesis using av True u by (simp add: on_loan_issued)
  next
    case False
    with that have "books_db L j = Some b" by (simp add: books_issued)
    from cnt[OF this that(2)] False u show ?thesis by (simp add: on_loan_issued)
  qed
  have d: "bs \<noteq> [] \<and> (\<forall>b\<in>set bs. map_of books_list (isbn b) \<noteq> None)"
    if "borrowings ?L' v = Some bs" for v bs
  proof (cases "v = u")
    case True
    with that have bs: "bs = held L u @ [\<lparr>isbn = i, issue_time = now\<rparr>]"
      by (simp add: borrowings_issued)
    have "\<forall>b\<in>set (held L u). map_of books_list (isbn b) \<noteq> None"
    proof (cases "borrowings L u")
      case None
      then show ?thesis by (simp add: held_def)
    next
      case (Some xs)
      with ne[OF Some] show ?thesis by (simp add: held_def)
    qed
    with bs idom show ?thesis by auto
  next
    case False
    with that ne[of v bs] show ?thesis by (simp add: borrowings_issued)
  qed
  show ?thesis unfolding ledger_inv_def using a b c d by blast
qed

lemma inv_issue: "ledger_inv L \<Longrightarrow> ledger_inv (snd (issue_book_logic now u i L))"
  using issue_cases[of now u i L] inv_issued[of L u i _ now] by auto

lemma return_cases:
  "snd (return_book_logic now u i L) = L \<or>
   (\<exists>bk bs b. books_db L i = Some bk \<and> borrowings L u = Some bs \<and>
      find (\<lambda>b. isbn b = i) bs = Some b \<and>
      snd (return_book_logic now u i L) = returned u i bk bs b L)"
  by (auto simp: return_book_logic_def returned_def Let_def split: option.splits)

lemma held_returned:
  "borrowings L u = Some bs \<Longrightarrow>
   held (returned u i bk bs b L) v = (if v = u then remove1 b bs else held L v)"
  by (simp add: held_def returned_def)

lemma count_held_returned:
  assumes "borrowings L u = Some bs" "find (\<lambda>b. isbn b = i) bs = Some b"
  shows "count_held (returned u i bk bs b L) v j + (if v = u \<and> j = i then 1 else 0) = count_held L v j"
proof -
  from find_SomeD[OF assms(2)] have m: "b \<in> set bs" "isbn b = i" by auto
  have h: "held L u = bs" using assms(1) by (simp add: held_def)
  show ?thesis
    using filter_remove1_len[OF m(1), of "\<lambda>b. isbn b = j"] m(2) h
    by (auto simp: count_held_def held_returned[OF assms(1)])
qed

lemma on_loan_returned:
  assumes "borrowings L u = Some bs" "find (\<lambda>b. isbn b = i) bs = Some b" "users_db u \<noteq> None"
  shows "on_loan (returned u i bk bs b L) j + (if j = i then 1 else 0) = on_loan L j"
  using count_held_returned[OF assms(1,2), of bk "''01''" j]
        count_held_returned[OF assms(1,2), of bk "''02''" j] users_dom[OF assms(3)]
  by (auto simp: on_loan_eq split: if_splits)

lemma books_returned:
  "books_db (returned u i bk bs b L) j =
     (if j = i then Some (bk\<lparr>available := available bk + 1\<rparr>) else books_db L j)"
  by (simp add: returned_def)

lemma borrowings_returned:
  "borrowings (returned u i bk bs b L) v =
     (if v = u then (if remove1 b bs = [] then None else Some (remove1 b bs)) else borrowings L v)"
  by (simp add: returned_def)

lemma inv_returned:
  assumes inv: "ledger_inv L" and bk: "books_db L i = Some bk"
    and bs: "borrowings L u = Some bs" and f: "find (\<lambda>b. isbn b = i) bs = Some b"
  shows "ledger_inv (returned u i bk bs b L)"
proof -
  let ?L' = "returned u i bk bs b L"
  from inv have d1: "\<And>v. borrowings L v \<noteq> None \<Longrightarrow> users_db v \<noteq> None"
    and d2: "\<And>j. (books_db L j = None) = (map_of books_list j = None)"
    and cnt: "\<And>j b b0. books_db L j = Some b \<Longrightarrow> map_of books_list j = Some b0 \<Longrightarrow>
        total b = total b0 \<and> 0 \<le> available b \<and> available b + int (on_loan L j) = available b0"
    and ne: "\<And>v bs. borrowings L v = Some bs \<Longrightarrow>
        bs \<noteq> [] \<and> (\<forall>b\<in>set bs. map_of books_list (isbn b) \<noteq> None)"
    by (auto simp: ledger_inv_def)
  from d1[of u] bs have u: "users_db u \<noteq> None" by simp
  note ol = on_loan_returned[OF bs f u, of bk]
  from bk d2[of i] have idom: "map_of books_list i \<noteq> None" by simp
  have a: "users_db v \<noteq> None" if "borrowings ?L' v \<noteq> None" for v
    using that d1[of v] u by (simp add: borrowings_returned split: if_splits)
  have b: "(books_db ?L' j = None) = (map_of books_list j = None)" for j
    using d2[of j] idom by (simp add: books_returned)
  have c: "total x = total b0 \<and> 0 \<le> available x \<and> available x + int (on_loan ?L' j) = available b0"
    if "books_db ?L' j = Some x" "map_of books_list j = Some b0" for j x b0
  proof (cases "j = i")
    case True
    with that have "x = bk\<lparr>available := available bk + 1\<rparr>" by (simp add: books_returned)
    moreover from cnt[OF bk] that True
    have "total bk = total b0 \<and> 0 \<le> available bk \<and> available bk + int (on_loan L i) = available b0" by simp
    ultimately show ?thesis using True ol[of i] by simp
  next
    case False
    with that have "books_db L j = Some x" by (simp add: books_returned)
    from cnt[OF this that(2)] False ol[of j] show ?thesis by simp
  qed
  have d: "xs \<noteq> [] \<and> (\<forall>b\<in>set xs. map_of books_list (isbn b) \<noteq> None)"
    if "borrowings ?L' v = Some xs" for v xs
  proof (cases "v = u")
    case True
    with that have "xs = remove1 b bs" "xs \<noteq> []"
      by (auto simp: borrowings_returned split: if_splits)
    moreover have "set (remove1 b bs) \<subseteq> set bs" by (rule set_remove1_subset)
    ultimately show ?thesis using ne[OF bs] by blast
  next
    case False
    with that ne[of v xs] show ?thesis by (simp add: borrowings_returned)
  qed
  show ?thesis unfolding ledger_inv_def using a b c d by blast
qed

lemma inv_return: "ledger_inv L \<Longrightarrow> ledger_inv (snd (return_book_logic now u i L))"
  using return_cases[of now u i L] inv_returned[of L i _ u] by auto

lemma inv_users: "ledger_inv L \<Longrightarrow> borrowings L u \<noteq> None \<Longrightarrow> users_db u \<noteq> None"
  by (simp add: ledger_inv_def)

lemma inv_books: "ledger_inv L \<Longrightarrow> (books_db L i = None) = (map_of books_list i = None)"
  by (simp add: ledger_inv_def)

lemma inv_count:
  "ledger_inv L \<Longrightarrow> books_db L i = Some bk \<Longrightarrow> map_of books_list i = Some bk0 \<Longrightarrow>
   total bk = total bk0 \<and> 0 \<le> available bk \<and> available bk + int (on_loan L i) = available bk0"
  unfolding ledger_inv_def by blast

lemma inv_nonempty:
  "ledger_inv L \<Longrightarrow> borrowings L u = Some bs \<Longrightarrow>
   bs \<noteq> [] \<and> (\<forall>b\<in>set bs. map_of books_list (isbn b) \<noteq> None)"
  unfolding ledger_inv_def by blast

lemma count_held_le_on_loan:
  assumes "ledger_inv L"
  shows "count_held L u i \<le> on_loan L i"
proof (cases "borrowings L u")
  case None
  then show ?thesis by (simp add: count_held_def held_def)
next
  case (Some bs)
  with inv_users[OF assms, of u] have "users_db u \<noteq> None" by simp
  from users_dom[OF this] show ?thesis by (auto simp: on_loan_eq)
qed

lemma inv_foldl: "ledger_inv L \<Longrightarrow> ledger_inv (foldl apply_op L ops)"
proof (induction ops arbitrary: L)
  case Nil
  then show ?case by simp
next
  case (Cons x xs)
  then show ?case by (cases x) (simp_all add: inv_issue inv_return)
qed

lemma inv_run: "ledger_inv (run ops)"
  unfolding run_def by (rule inv_foldl[OF inv_init])

lemma run_snoc: "run (ops @ [x]) = apply_op (run ops) x"
  by (simp add: run_def)

lemma find_app:
  "find P (xs @ ys) = (case find P xs of None \<Rightarrow> find P ys | Some x \<Rightarrow> Some x)"
  by (induction xs) auto

text \<open>The equations that evaluate the ledger on a concrete input.\<close>

lemmas ledger_eval = run_def issue_book_logic_def return_book_logic_def init_ledger_def
  books_list_def users_db_def users_list_def held_def calculate_days_def
  test_delay_seconds_def Let_def

section \<open>The claims about the ledger\<close>

text \<open>
  Claim C5. For a known user and a known book with no available copy, the issue call
  answers with the header \<^verbatim>\<open>OOPS!\<close> and the text "No copies left for this book", and
  gives back the ledger as it was: the book counts and the borrowings are all unchanged.
\<close>

theorem issue_no_copies_unchanged:
  assumes "users_db u \<noteq> None" and "books_db L b = Some bk" and "available bk = 0"
  shows "issue_book_logic now u b L = ((''OOPS!'', No_copies_left, 0), L)"
  using assms by (auto simp: issue_book_logic_def)

theorem issue_no_copies_unchanged_witness:
  "users_db ''02'' \<noteq> None \<and>
   books_db (run [Issue now_time ''02'' ''978-5'']) ''978-5''
     = Some \<lparr>title = ''Calculus II'', total = 2, available = 0\<rparr> \<and>
   available \<lparr>title = ''Calculus II'', total = 2, available = 0\<rparr> = 0 \<and>
   issue_book_logic now_time ''02'' ''978-5'' (run [Issue now_time ''02'' ''978-5''])
     = ((''OOPS!'', No_copies_left, 0), run [Issue now_time ''02'' ''978-5''])"
proof -
  have u: "users_db ''02'' \<noteq> None" by (simp add: users_db_def users_list_def)
  have b: "books_db (run [Issue now_time ''02'' ''978-5'']) ''978-5''
     = Some \<lparr>title = ''Calculus II'', total = 2, available = 0\<rparr>"
    by (simp add: run_def issue_book_logic_def init_ledger_def books_list_def users_db_def users_list_def Let_def)
  have a: "available \<lparr>title = ''Calculus II'', total = 2, available = 0\<rparr> = 0" by simp
  from issue_no_copies_unchanged[OF u b a, of now_time] u b a show ?thesis by simp
qed

text \<open>
  Claim C3. After every sequence of issue and return calls from the provisioned ledger,
  hence after each call of the sequence, the available count of every book is between
  zero and the book's total.
\<close>

theorem available_within_total:
  assumes "books_db (run ops) b = Some bk"
  shows "0 \<le> available bk \<and> available bk \<le> total bk"
proof -
  have inv: "ledger_inv (run ops)" by (rule inv_run)
  from inv_books[OF inv, of b] assms obtain bk0 where b0: "map_of books_list b = Some bk0"
    by auto
  from inv_count[OF inv assms b0] books_total[OF b0] show ?thesis by simp
qed

theorem available_within_total_witness:
  "books_db (run [Issue now_time ''02'' ''978-5'', Return now_time ''02'' ''978-5'',
                  Return now_time ''02'' ''978-5'']) ''978-5''
     = Some \<lparr>title = ''Calculus II'', total = 2, available = 1\<rparr> \<and>
   0 \<le> available \<lparr>title = ''Calculus II'', total = 2, available = 1\<rparr> \<and>
   available \<lparr>title = ''Calculus II'', total = 2, available = 1\<rparr>
     \<le> total \<lparr>title = ''Calculus II'', total = 2, available = 1\<rparr>"
proof -
  let ?L = "run [Issue now_time ''02'' ''978-5'', Return now_time ''02'' ''978-5'',
                 Return now_time ''02'' ''978-5'']"
  have b: "books_db ?L ''978-5'' = Some \<lparr>title = ''Calculus II'', total = 2, available = 1\<rparr>"
    by (simp add: run_def issue_book_logic_def return_book_logic_def init_ledger_def
        books_list_def users_db_def users_list_def held_def Let_def)
  from available_within_total[OF b] b show ?thesis by simp
qed


text \<open>
  Claim C4, as amended. A user can hold several borrowings of one book identifier, since
  the issue call appends a borrowing whatever the user holds already. What every run
  keeps is a bound: the borrowings that a user holds of a book are at most the copies
  of it that are out, the provisioned available count minus the present one, and that
  is at most the book's total.
\<close>

theorem held_copies_bounded:
  assumes "books_db (run ops) b = Some bk" and "map_of books_list b = Some bk0"
  shows "int (count_held (run ops) u b) \<le> available bk0 - available bk \<and>
         available bk0 - available bk \<le> total bk"
proof -
  have inv: "ledger_inv (run ops)" by (rule inv_run)
  from inv_count[OF inv assms] books_total[OF assms(2)] count_held_le_on_loan[OF inv, of u b]
  show ?thesis by simp
qed

theorem held_copies_bounded_witness:
  "books_db (run [Issue now_time ''01'' ''978-1'', Issue now_time ''01'' ''978-1'']) ''978-1''
     = Some \<lparr>title = ''Python Basics'', total = 5, available = 3\<rparr> \<and>
   map_of books_list ''978-1'' = Some \<lparr>title = ''Python Basics'', total = 5, available = 5\<rparr> \<and>
   count_held (run [Issue now_time ''01'' ''978-1'', Issue now_time ''01'' ''978-1'']) ''01'' ''978-1'' \<le> 2"
proof -
  let ?L = "run [Issue now_time ''01'' ''978-1'', Issue now_time ''01'' ''978-1'']"
  have b: "books_db ?L ''978-1'' = Some \<lparr>title = ''Python Basics'', total = 5, available = 3\<rparr>"
    by (simp add: run_def issue_book_logic_def init_ledger_def books_list_def users_db_def
        users_list_def Let_def)
  have b0: "map_of books_list ''978-1'' = Some \<lparr>title = ''Python Basics'', total = 5, available = 5\<rparr>"
    by (simp add: books_list_def)
  from held_copies_bounded[OF b b0, of "''01''"] b b0 show ?thesis by simp
qed

text \<open>
  The claim as it was stated fails: user 01 issues book 978-1 twice and holds two
  borrowings of it.
\<close>

theorem one_borrowing_per_book_counterexample:
  "\<not> distinct (map isbn (held (run [Issue now_time ''01'' ''978-1'', Issue now_time ''01'' ''978-1'']) ''01''))"
  by (simp add: run_def issue_book_logic_def init_ledger_def books_list_def users_db_def users_list_def Let_def held_def)

text \<open>
  Claim C1, as amended. For a known user and a book of the ledger with an available copy,
  an issue followed at once by the return, at the same clock value, succeeds and leaves
  the book table as it was before the issue, so the available count is restored. The fine
  is not zero: the clock that \<open>calculate_days\<close> reads is moved forward by the testing delay
  of 17 days, so the borrowing issued a moment ago counts 17 days, two days over the
  15 days of grace, and the fine is 30. (The return takes the first borrowing of the book
  in the user's list; it is the one just issued when the user held none of the book.)
\<close>

theorem issue_then_return:
  assumes u: "users_db u \<noteq> None" and bk: "books_db L b = Some bk" and av: "0 < available bk"
  shows "fst (fst (return_book_logic now u b (snd (issue_book_logic now u b L)))) = ''RETURNED'' \<and>
         books_db (snd (return_book_logic now u b (snd (issue_book_logic now u b L)))) = books_db L \<and>
         ((\<forall>x\<in>set (held L u). isbn x \<noteq> b) \<longrightarrow>
            snd (snd (fst (return_book_logic now u b (snd (issue_book_logic now u b L))))) = 30)"
proof -
  let ?L1 = "issued now u b bk L"
  have i: "snd (issue_book_logic now u b L) = ?L1"
    using u bk av by (auto simp: issue_book_logic_def issued_def Let_def)
  let ?n = "\<lparr>isbn = b, issue_time = now\<rparr>"
  have "find (\<lambda>x. isbn x = b) (held L u @ [?n]) \<noteq> None"
    by (auto simp: find_None_iff)
  then obtain x where x: "find (\<lambda>x. isbn x = b) (held L u @ [?n]) = Some x" by auto
  have bk1: "books_db ?L1 b = Some (bk\<lparr>available := available bk - 1\<rparr>)"
    by (simp add: books_issued)
  have br1: "borrowings ?L1 u = Some (held L u @ [?n])"
    by (simp add: borrowings_issued)
  have r: "return_book_logic now u b ?L1
      = ((''RETURNED'', Returned (title bk) (max 0 (calculate_days now (issue_time x) - 15) * 15) (available bk),
          max 0 (calculate_days now (issue_time x) - 15) * 15),
         returned u b (bk\<lparr>available := available bk - 1\<rparr>) (held L u @ [?n]) x ?L1)"
    by (simp add: return_book_logic_def bk1 br1 x Let_def returned_def)
  have bb: "books_db (returned u b (bk\<lparr>available := available bk - 1\<rparr>) (held L u @ [?n]) x ?L1) = books_db L"
    using bk by (auto simp: books_returned books_issued fun_eq_iff)
  have f: "snd (snd (fst (return_book_logic now u b ?L1))) = 30"
    if "\<forall>y\<in>set (held L u). isbn y \<noteq> b"
  proof -
    from that have "find (\<lambda>x. isbn x = b) (held L u) = None" by (simp add: find_None_iff)
    then have "find (\<lambda>x. isbn x = b) (held L u @ [?n]) = Some ?n"
      by (simp add: find_app)
    with x have "x = ?n" by simp
    then show ?thesis by (simp add: r calculate_days_def test_delay_seconds_def)
  qed
  show ?thesis using i r bb f by simp
qed


theorem issue_then_return_witness:
  "users_db ''01'' \<noteq> None \<and>
   books_db init_ledger ''978-1'' = Some \<lparr>title = ''Python Basics'', total = 5, available = 5\<rparr> \<and>
   0 < available \<lparr>title = ''Python Basics'', total = 5, available = 5\<rparr> \<and>
   held init_ledger ''01'' = [] \<and>
   fst (fst (return_book_logic now_time ''01'' ''978-1''
          (snd (issue_book_logic now_time ''01'' ''978-1'' init_ledger)))) = ''RETURNED'' \<and>
   books_db (snd (return_book_logic now_time ''01'' ''978-1''
          (snd (issue_book_logic now_time ''01'' ''978-1'' init_ledger)))) = books_db init_ledger \<and>
   snd (snd (fst (return_book_logic now_time ''01'' ''978-1''
          (snd (issue_book_logic now_time ''01'' ''978-1'' init_ledger))))) = 30"
proof -
  have u: "users_db ''01'' \<noteq> None" by (simp add: users_db_def users_list_def)
  have b: "books_db init_ledger ''978-1'' = Some \<lparr>title = ''Python Basics'', total = 5, available = 5\<rparr>"
    by (simp add: init_ledger_def books_list_def)
  have a: "0 < available \<lparr>title = ''Python Basics'', total = 5, available = 5\<rparr>" by simp
  have h: "\<forall>x\<in>set (held init_ledger ''01''). isbn x \<noteq> ''978-1''"
    by (simp add: held_def init_ledger_def)
  have e: "held init_ledger ''01'' = []" by (simp add: held_def init_ledger_def)
  from issue_then_return[OF u b a, of now_time] u b a h e show ?thesis by simp
qed

text \<open>
  The claim as it was stated fails at the provisioned ledger: user 01 issues book 978-1
  and returns it at the same clock value, and the fine is 30.
\<close>

theorem issue_then_return_fine_counterexample:
  "users_db ''01'' \<noteq> None \<and>
   map_option available (books_db init_ledger ''978-1'') = Some 5 \<and>
   fst (return_book_logic now_time ''01'' ''978-1''
          (snd (issue_book_logic now_time ''01'' ''978-1'' init_ledger)))
     = (''RETURNED'', Returned ''Python Basics'' 30 5, 30) \<and>
   snd (snd (fst (return_book_logic now_time ''01'' ''978-1''
          (snd (issue_book_logic now_time ''01'' ''978-1'' init_ledger))))) \<noteq> 0"
  by (simp add: ledger_eval)

text \<open>
  Claim C2, as amended. For every successful return the fine is
  \<open>max 0 (daysHeld - 15) * 15\<close>, where \<open>daysHeld\<close> is the floor of
  \<open>(now + 17 days - issueTime) / 86400\<close> for the first borrowing of the book in the user's
  list: the testing delay of 17 days is added to the clock. With this \<open>daysHeld\<close>, 15 days
  give no fine, 16 days give 15 and 30 days give 225.
\<close>

theorem return_fine_formula:
  assumes "fst (fst (return_book_logic now u b L)) = ''RETURNED''"
  shows "\<exists>x. find (\<lambda>x. isbn x = b) (held L u) = Some x \<and>
     (let daysHeld = (now + 17 * 86400 - issue_time x) div 86400;
          fine = snd (snd (fst (return_book_logic now u b L)))
      in fine = max 0 (daysHeld - 15) * 15 \<and>
         (daysHeld = 15 \<longrightarrow> fine = 0) \<and>
         (daysHeld = 16 \<longrightarrow> fine = 15) \<and>
         (daysHeld = 30 \<longrightarrow> fine = 225))"
  using assms
  by (auto simp: return_book_logic_def held_def calculate_days_def test_delay_seconds_def Let_def
      split: option.splits)

theorem return_fine_formula_witness:
  "fst (fst (return_book_logic now_time ''01'' ''978-1'' (run [Issue (now_time + 2 * 86400) ''01'' ''978-1'']))) = ''RETURNED'' \<and>
   (now_time + 17 * 86400 - (now_time + 2 * 86400)) div 86400 = 15 \<and>
   snd (snd (fst (return_book_logic now_time ''01'' ''978-1'' (run [Issue (now_time + 2 * 86400) ''01'' ''978-1''])))) = 0 \<and>
   fst (fst (return_book_logic now_time ''01'' ''978-1'' (run [Issue (now_time + 86400) ''01'' ''978-1'']))) = ''RETURNED'' \<and>
   (now_time + 17 * 86400 - (now_time + 86400)) div 86400 = 16 \<and>
   snd (snd (fst (return_book_logic now_time ''01'' ''978-1'' (run [Issue (now_time + 86400) ''01'' ''978-1''])))) = 15 \<and>
   fst (fst (return_book_logic (now_time + 13 * 86400) ''01'' ''978-1'' (run [Issue now_time ''01'' ''978-1'']))) = ''RETURNED'' \<and>
   (now_time + 13 * 86400 + 17 * 86400 - now_time) div 86400 = 30 \<and>
   snd (snd (fst (return_book_logic (now_time + 13 * 86400) ''01'' ''978-1'' (run [Issue now_time ''01'' ''978-1''])))) = 225"
proof -
  let ?L1 = "run [Issue (now_time + 2 * 86400) ''01'' ''978-1'']"
  let ?L2 = "run [Issue (now_time + 86400) ''01'' ''978-1'']"
  let ?L3 = "run [Issue now_time ''01'' ''978-1'']"
  have r1: "fst (fst (return_book_logic now_time ''01'' ''978-1'' ?L1)) = ''RETURNED''"
    by (simp add: ledger_eval)
  have r2: "fst (fst (return_book_logic now_time ''01'' ''978-1'' ?L2)) = ''RETURNED''"
    by (simp add: ledger_eval)
  have r3: "fst (fst (return_book_logic (now_time + 13 * 86400) ''01'' ''978-1'' ?L3)) = ''RETURNED''"
    by (simp add: ledger_eval)
  have h1: "held ?L1 ''01'' = [\<lparr>isbn = ''978-1'', issue_time = now_time + 2 * 86400\<rparr>]"
    by (simp add: ledger_eval)
  have h2: "held ?L2 ''01'' = [\<lparr>isbn = ''978-1'', issue_time = now_time + 86400\<rparr>]"
    by (simp add: ledger_eval)
  have h3: "held ?L3 ''01'' = [\<lparr>isbn = ''978-1'', issue_time = now_time\<rparr>]"
    by (simp add: ledger_eval)
  from return_fine_formula[OF r1] return_fine_formula[OF r2] return_fine_formula[OF r3]
    r1 r2 r3
  show ?thesis unfolding h1 h2 h3 by (simp add: Let_def)
qed

text \<open>
  The claim as it was stated, with \<open>daysHeld\<close> the floor of \<open>(now - issueTime) / 86400\<close>,
  fails: user 02 returns book 978-3 at the clock value of its issue, the stated formula
  gives 0 and the program computes 30.
\<close>

theorem return_fine_formula_counterexample:
  "fst (fst (return_book_logic now_time ''02'' ''978-3'' (run [Issue now_time ''02'' ''978-3'']))) = ''RETURNED'' \<and>
   held (run [Issue now_time ''02'' ''978-3'']) ''02'' = [\<lparr>isbn = ''978-3'', issue_time = now_time\<rparr>] \<and>
   snd (snd (fst (return_book_logic now_time ''02'' ''978-3'' (run [Issue now_time ''02'' ''978-3''])))) = 30 \<and>
   snd (snd (fst (return_book_logic now_time ''02'' ''978-3'' (run [Issue now_time ''02'' ''978-3'']))))
     \<noteq> max 0 ((now_time - now_time) div 86400 - 15) * 15"
  by (simp add: ledger_eval)

text \<open>
  Claim C6. In every ledger state that a run reaches, the return call answers "Book Not
  Found" when the book identifier is not in the book table; otherwise "No borrowings" when
  the user holds no borrowing; otherwise "You don't have this book" when the user holds
  borrowings but none of this book; in these three cases the ledger is given back as it
  was. The header is \<^verbatim>\<open>RETURNED\<close> exactly when the user holds a borrowing of the book.
\<close>

theorem return_outcomes:
  "(books_db (run ops) b = None \<longrightarrow>
      return_book_logic now u b (run ops) = ((''ERROR'', Book_Not_Found, 0), run ops)) \<and>
   (books_db (run ops) b \<noteq> None \<and> held (run ops) u = [] \<longrightarrow>
      return_book_logic now u b (run ops) = ((''ERROR'', No_borrowings, 0), run ops)) \<and>
   (books_db (run ops) b \<noteq> None \<and> held (run ops) u \<noteq> [] \<and>
      (\<forall>x\<in>set (held (run ops) u). isbn x \<noteq> b) \<longrightarrow>
      return_book_logic now u b (run ops) = ((''ERROR'', You_dont_have_this_book, 0), run ops)) \<and>
   ((fst (fst (return_book_logic now u b (run ops))) = ''RETURNED'')
      = (\<exists>x\<in>set (held (run ops) u). isbn x = b))"
proof -
  let ?L = "run ops"
  have inv: "ledger_inv ?L" by (rule inv_run)
  have c1: "return_book_logic now u b ?L = ((''ERROR'', Book_Not_Found, 0), ?L)"
    if "books_db ?L b = None"
    using that by (simp add: return_book_logic_def)
  have c2: "return_book_logic now u b ?L = ((''ERROR'', No_borrowings, 0), ?L)"
    if "books_db ?L b \<noteq> None" "held ?L u = []"
  proof (cases "borrowings ?L u")
    case None
    with that show ?thesis by (auto simp: return_book_logic_def)
  next
    case (Some bs)
    with inv_nonempty[OF inv Some] that(2) show ?thesis by (simp add: held_def)
  qed
  have c3: "return_book_logic now u b ?L = ((''ERROR'', You_dont_have_this_book, 0), ?L)"
    if "books_db ?L b \<noteq> None" "held ?L u \<noteq> []" "\<forall>x\<in>set (held ?L u). isbn x \<noteq> b"
  proof (cases "borrowings ?L u")
    case None
    with that(2) show ?thesis by (simp add: held_def)
  next
    case (Some bs)
    with that(3) have "find (\<lambda>x. isbn x = b) bs = None"
      by (simp add: held_def find_None_iff)
    with Some that(1) show ?thesis by (auto simp: return_book_logic_def)
  qed
  have c4: "(fst (fst (return_book_logic now u b ?L)) = ''RETURNED'')
      = (\<exists>x\<in>set (held ?L u). isbn x = b)"
  proof (cases "\<exists>x\<in>set (held ?L u). isbn x = b")
    case True
    then obtain x where x: "x \<in> set (held ?L u)" "isbn x = b" by auto
    then obtain bs where bs: "borrowings ?L u = Some bs" "x \<in> set bs"
      by (cases "borrowings ?L u") (auto simp: held_def)
    from inv_nonempty[OF inv bs(1)] bs(2) x(2) have "map_of books_list b \<noteq> None" by auto
    with inv_books[OF inv, of b] obtain bk where bk: "books_db ?L b = Some bk" by auto
    from bs(2) x(2) have "find (\<lambda>x. isbn x = b) bs \<noteq> None" by (auto simp: find_None_iff)
    then obtain y where "find (\<lambda>x. isbn x = b) bs = Some y" by auto
    with bk bs(1) have "fst (fst (return_book_logic now u b ?L)) = ''RETURNED''"
      by (simp add: return_book_logic_def Let_def)
    with True show ?thesis by simp
  next
    case False
    then have n: "\<forall>x\<in>set (held ?L u). isbn x \<noteq> b" by simp
    have "fst (fst (return_book_logic now u b ?L)) = ''ERROR''"
    proof (cases "books_db ?L b = None")
      case True
      from c1[OF this] show ?thesis by simp
    next
      case nb: False
      show ?thesis
      proof (cases "held ?L u = []")
        case True
        from c2[OF nb this] show ?thesis by simp
      next
        case False
        from c3[OF nb this n] show ?thesis by simp
      qed
    qed
    with False show ?thesis by simp
  qed
  have i1: "books_db ?L b = None \<longrightarrow>
      return_book_logic now u b ?L = ((''ERROR'', Book_Not_Found, 0), ?L)"
    by (rule impI) (rule c1)
  have i2: "books_db ?L b \<noteq> None \<and> held ?L u = [] \<longrightarrow>
      return_book_logic now u b ?L = ((''ERROR'', No_borrowings, 0), ?L)"
    by (rule impI, erule conjE, rule c2)
  have i3: "books_db ?L b \<noteq> None \<and> held ?L u \<noteq> [] \<and>
      (\<forall>x\<in>set (held ?L u). isbn x \<noteq> b) \<longrightarrow>
      return_book_logic now u b ?L = ((''ERROR'', You_dont_have_this_book, 0), ?L)"
    by (rule impI, (erule conjE)+, rule c3)
  show ?thesis by (rule conjI[OF i1 conjI[OF i2 conjI[OF i3 c4]]])
qed

theorem return_outcomes_witness:
  "books_db (run []) ''000'' = None \<and>
   return_book_logic now_time ''01'' ''000'' (run []) = ((''ERROR'', Book_Not_Found, 0), run []) \<and>
   books_db (run []) ''978-1'' \<noteq> None \<and> held (run []) ''01'' = [] \<and>
   return_book_logic now_time ''01'' ''978-1'' (run []) = ((''ERROR'', No_borrowings, 0), run []) \<and>
   books_db (run [Issue now_time ''01'' ''978-1'']) ''978-2'' \<noteq> None \<and>
   map isbn (held (run [Issue now_time ''01'' ''978-1'']) ''01'') = [''978-1''] \<and>
   return_book_logic now_time ''01'' ''978-2'' (run [Issue now_time ''01'' ''978-1''])
     = ((''ERROR'', You_dont_have_this_book, 0), run [Issue now_time ''01'' ''978-1'']) \<and>
   fst (fst (return_book_logic now_time ''01'' ''978-1'' (run [Issue now_time ''01'' ''978-1'']))) = ''RETURNED''"
proof -
  let ?L = "run [Issue now_time ''01'' ''978-1'']"
  have a: "books_db (run []) ''000'' = None" by (simp add: ledger_eval)
  have b: "books_db (run []) ''978-1'' \<noteq> None" "held (run []) ''01'' = []"
    by (simp_all add: ledger_eval)
  have h: "held ?L ''01'' = [\<lparr>isbn = ''978-1'', issue_time = now_time\<rparr>]"
    by (simp add: ledger_eval)
  have c: "books_db ?L ''978-2'' \<noteq> None" by (simp add: ledger_eval)
  have d: "held ?L ''01'' \<noteq> []" "\<forall>x\<in>set (held ?L ''01''). isbn x \<noteq> ''978-2''"
    "\<exists>x\<in>set (held ?L ''01''). isbn x = ''978-1''"
    by (simp_all add: h)
  have m: "map isbn (held ?L ''01'') = [''978-1'']" by (simp add: h)
  note r1 = return_outcomes[of "[]" "''000''" now_time "''01''",
      THEN conjunct1, THEN mp, OF a]
  note r2 = return_outcomes[of "[]" "''978-1''" now_time "''01''",
      THEN conjunct2, THEN conjunct1, THEN mp, OF conjI[OF b(1) b(2)]]
  note r3 = return_outcomes[of "[Issue now_time ''01'' ''978-1'']" "''978-2''" now_time "''01''",
      THEN conjunct2, THEN conjunct2, THEN conjunct1, THEN mp, OF conjI[OF c conjI[OF d(1) d(2)]]]
  note r4 = return_outcomes[of "[Issue now_time ''01'' ''978-1'']" "''978-1''" now_time "''01''",
      THEN conjunct2, THEN conjunct2, THEN conjunct2, THEN iffD2, OF d(3)]
  show ?thesis by (intro conjI a b r1 r2 c m r3 r4)
qed

section \<open>Facts about the scan\<close>

lemma str_bytes_not_book: "str_bytes p \<notin> set book_keys"
  by (simp add: str_bytes_def book_keys_def books_list_def Let_def)

lemma books_run_dom: "(books_db (run ops) i = None) = (i \<notin> set book_keys)"
  using inv_books[OF inv_run, of ops i] by (simp add: book_keys_def map_of_eq_None_iff)

lemma scan_loop_error:
  "scan_loop (Some d) dec found n es = Some (f, k, Exit_error) \<Longrightarrow> Capture_raises \<in> set es"
proof (induction es arbitrary: found n)
  case Nil
  then show ?case by simp
next
  case (Cons e es)
  show ?case
  proof (cases e)
    case Capture_raises
    then show ?thesis by simp
  next
    case (Frame rows left)
    with Cons.prems have
      "scan_loop (Some d) dec (foldl (\<lambda>f payload. Some (decode_payload dec payload)) found rows)
         (Suc n) es = Some (f, k, Exit_error)"
      by (simp add: Let_def split: if_splits)
    from Cons.IH[OF this] show ?thesis by simp
  qed
qed

lemma scan_loop_last_payload:
  "decode_payload dec p \<noteq> [] \<Longrightarrow>
   scan_loop (Some d) dec found n (Frame (rows @ [p]) left # es)
     = Some (Some (decode_payload dec p), Suc n, Exit_found)"
  by (simp add: Let_def)

section \<open>The claims about the session and the scan\<close>

text \<open>
  Claim C7. In the PIN entry, the OK branch joins the four digit texts and compares them
  with the password of the user chosen in the identifier step. When they are equal, the
  authenticated user becomes that user and the state becomes 0, the menu. When they
  differ, the state stays 4, every digit text is set to \<^verbatim>\<open>0\<close> and the cursor goes to
  position 0; so 9999 against the password 1234 stays in the PIN entry with 0000.
\<close>

theorem pin_confirm_outcome:
  assumes "current_state s = 4" and "users_db (temp_user_id s) = Some usr"
    and "length (pin_digits s) = 4"
  shows "(concat (pin_digits s) = password usr \<longrightarrow>
           pin_confirm s = Some (s\<lparr>current_user := temp_user_id s, menu_index := 0, current_state := 0\<rparr>)) \<and>
         (concat (pin_digits s) \<noteq> password usr \<longrightarrow>
           pin_confirm s = Some (s\<lparr>pin_digits := [''0'', ''0'', ''0'', ''0''], pin_pos := 0\<rparr>) \<and>
           current_state (s\<lparr>pin_digits := [''0'', ''0'', ''0'', ''0''], pin_pos := 0\<rparr>) = 4)"
proof -
  from assms(3) obtain a b c d where "pin_digits s = [a, b, c, d]"
    by (auto simp: length_Suc_conv numeral_eq_Suc)
  then have "map (\<lambda>d. ''0'') (pin_digits s) = [''0'', ''0'', ''0'', ''0'']" by simp
  with assms(1,2) show ?thesis by (simp add: pin_confirm_def)
qed

theorem pin_confirm_outcome_witness:
  "current_state pin_9999 = 4 \<and>
   users_db (temp_user_id pin_9999) = Some \<lparr>name = ''Amit Sharma'', role = ''Student'', password = ''1234''\<rparr> \<and>
   length (pin_digits pin_9999) = 4 \<and>
   concat (pin_digits pin_9999) = ''9999'' \<and>
   pin_confirm pin_9999 = Some (pin_9999\<lparr>pin_digits := [''0'', ''0'', ''0'', ''0''], pin_pos := 0\<rparr>) \<and>
   current_state pin_1234 = 4 \<and>
   users_db (temp_user_id pin_1234) = Some \<lparr>name = ''Amit Sharma'', role = ''Student'', password = ''1234''\<rparr> \<and>
   length (pin_digits pin_1234) = 4 \<and>
   concat (pin_digits pin_1234) = ''1234'' \<and>
   pin_confirm pin_1234 = Some (pin_1234\<lparr>current_user := ''01'', menu_index := 0, current_state := 0\<rparr>)"
proof -
  let ?u = "\<lparr>name = ''Amit Sharma'', role = ''Student'', password = ''1234''\<rparr>"
  have a: "current_state pin_9999 = 4" "users_db (temp_user_id pin_9999) = Some ?u"
    "length (pin_digits pin_9999) = 4" "concat (pin_digits pin_9999) = ''9999''"
    by (simp_all add: pin_9999_def session0_def users_db_def users_list_def)
  have b: "current_state pin_1234 = 4" "users_db (temp_user_id pin_1234) = Some ?u"
    "length (pin_digits pin_1234) = 4" "concat (pin_digits pin_1234) = ''1234''"
    "temp_user_id pin_1234 = ''01''"
    by (simp_all add: pin_1234_def session0_def users_db_def users_list_def)
  from pin_confirm_outcome[OF a(1,2,3)] pin_confirm_outcome[OF b(1,2,3)] a b
  show ?thesis by simp
qed

text \<open>
  Claim C8, as amended. When the setup could not create the camera, so that \<^verbatim>\<open>cam\<close> is
  still \<^verbatim>\<open>None\<close>, a scan request returns \<^verbatim>\<open>None\<close> without a single call of
  \<^verbatim>\<open>cam.take\<close>, whatever the camera would have shown, and state 6 goes on to state 1, the
  manual selection, with the list index at 0. After every failed setup, also one in which
  a statement after the creation of the camera raised, a scan request ends as a cancelled
  scan and state 6 goes on to the manual selection.
\<close>

theorem scan_after_failed_setup:
  "(cam = None \<longrightarrow>
      perform_scan cam qrdecoder dec es = Some (None, 0, No_camera) \<and>
      state6 cam qrdecoder dec es L s = Some (s\<lparr>book_index := 0, current_state := 1\<rparr>)) \<and>
   (ev \<noteq> Setup_succeeds \<and> camera_setup ev = (cam, qrdecoder) \<longrightarrow>
      state6 cam qrdecoder dec (e # es) L s = Some (s\<lparr>book_index := 0, current_state := 1\<rparr>))"
proof (intro conjI impI)
  assume "cam = None"
  then show "perform_scan cam qrdecoder dec es = Some (None, 0, No_camera)"
    by (simp add: perform_scan_def)
  then show "state6 cam qrdecoder dec es L s = Some (s\<lparr>book_index := 0, current_state := 1\<rparr>)"
    by (simp add: state6_def scan_state_def)
next
  assume a: "ev \<noteq> Setup_succeeds \<and> camera_setup ev = (cam, qrdecoder)"
  then have "qrdecoder = None" by (cases ev) auto
  then have "perform_scan cam qrdecoder dec (e # es) = Some (None, 0, No_camera) \<or>
             perform_scan cam qrdecoder dec (e # es) = Some (None, 1, Exit_error)"
    by (cases cam; cases e) (simp_all add: perform_scan_def)
  then show "state6 cam qrdecoder dec (e # es) L s = Some (s\<lparr>book_index := 0, current_state := 1\<rparr>)"
    by (auto simp: state6_def scan_state_def)
qed

theorem scan_after_failed_setup_witness:
  "fst (camera_setup Camera_raises) = None \<and>
   perform_scan (fst (camera_setup Camera_raises)) (snd (camera_setup Camera_raises)) ascii_decode
     [Frame [''978-1''] False] = Some (None, 0, No_camera) \<and>
   state6 (fst (camera_setup Camera_raises)) (snd (camera_setup Camera_raises)) ascii_decode
     [Frame [''978-1''] False] init_ledger session0
     = Some (session0\<lparr>book_index := 0, current_state := 1\<rparr>) \<and>
   Later_statement_raises \<noteq> Setup_succeeds \<and>
   camera_setup Later_statement_raises = (Some Camera, None) \<and>
   state6 (Some Camera) None ascii_decode [Frame [''978-1''] False] init_ledger session0
     = Some (session0\<lparr>book_index := 0, current_state := 1\<rparr>)"
proof -
  have c: "fst (camera_setup Camera_raises) = None" by simp
  have l: "Later_statement_raises \<noteq> Setup_succeeds" by simp
  have k: "camera_setup Later_statement_raises = (Some Camera, None)" by simp
  note a = scan_after_failed_setup[where cam = "fst (camera_setup Camera_raises)"
      and qrdecoder = "snd (camera_setup Camera_raises)" and dec = ascii_decode
      and es = "[Frame [''978-1''] False]" and L = init_ledger and s = session0,
      THEN conjunct1, THEN mp, OF c]
  note b = scan_after_failed_setup[where ev = Later_statement_raises and cam = "Some Camera"
      and qrdecoder = None and dec = ascii_decode and e = "Frame [''978-1''] False"
      and es = "[]" and L = init_ledger and s = session0,
      THEN conjunct2, THEN mp, OF conjI[OF l k]]
  show ?thesis by (intro conjI c l k b a[THEN conjunct1] a[THEN conjunct2])
qed

text \<open>
  The claim as it was stated fails. The guard of \<^verbatim>\<open>perform_scan\<close> reads \<^verbatim>\<open>cam\<close> alone;
  when a statement after the creation of the camera raises in the setup, the camera is
  bound and the decoder is not, and a scan request calls \<^verbatim>\<open>cam.take\<close> once before the call
  of the missing decoder raises and the handler ends the loop.
\<close>

theorem scan_capture_after_failed_setup_counterexample:
  "Later_statement_raises \<noteq> Setup_succeeds \<and>
   camera_setup Later_statement_raises = (Some Camera, None) \<and>
   perform_scan (fst (camera_setup Later_statement_raises)) (snd (camera_setup Later_statement_raises))
     ascii_decode [Frame [''978-1''] False] = Some (None, 1, Exit_error) \<and>
   perform_scan (fst (camera_setup Later_statement_raises)) (snd (camera_setup Later_statement_raises))
     ascii_decode [Frame [''978-1''] False] \<noteq> Some (None, 0, No_camera)"
  by (simp add: perform_scan_def)

text \<open>
  Claim C9. No payload makes the decoding raise out of the scan loop: over any number of
  turns and whatever the payloads are, the loop ends through its exception handler only
  when the capture of a frame raised. The UTF-8 decoder is tried on every payload. A
  payload that it reads becomes the decoded text: a text that is not empty ends the loop
  as found data, and state 6 compares it with the book identifiers for equality. A
  payload that it rejects becomes the text that \<^verbatim>\<open>str\<close> gives for the bytes; that text
  begins with the letter b, so it is no book identifier of the catalogue, in any state
  that a run of the ledger reaches: the loop ends with the text as found data, and state 6
  goes back to the menu as for a book that is not in the database.
\<close>

theorem payload_decoding:
  "(perform_scan (Some c) (Some d) dec es = Some (f, k, Exit_error) \<longrightarrow> Capture_raises \<in> set es) \<and>
   (dec p = Some t \<longrightarrow>
      decode_payload dec p = t \<and>
      (t \<noteq> [] \<longrightarrow>
         scan_loop (Some d) dec found n (Frame (rows @ [p]) left # es')
           = Some (Some t, Suc n, Exit_found) \<and>
         scan_state (Some t) L s =
           (if books_db L t \<noteq> None
            then s\<lparr>selected_isbn := t, confirm_index := 0, current_state := 5\<rparr>
            else s\<lparr>current_state := 0\<rparr>))) \<and>
   (dec p = None \<longrightarrow>
      decode_payload dec p = str_bytes p \<and>
      str_bytes p \<notin> set book_keys \<and>
      books_db (run ops) (decode_payload dec p) = None \<and>
      scan_loop (Some d) dec found n (Frame (rows @ [p]) left # es')
        = Some (Some (str_bytes p), Suc n, Exit_found) \<and>
      scan_state (Some (str_bytes p)) (run ops) s = s\<lparr>current_state := 0\<rparr>)"
proof (intro conjI impI)
  assume "perform_scan (Some c) (Some d) dec es = Some (f, k, Exit_error)"
  then have "scan_loop (Some d) dec None 0 es = Some (f, k, Exit_error)"
    by (simp add: perform_scan_def)
  then show "Capture_raises \<in> set es" by (rule scan_loop_error)
next
  assume "dec p = Some t"
  then show "decode_payload dec p = t" by (simp add: decode_payload_def)
next
  assume "dec p = Some t" "t \<noteq> []"
  then have "decode_payload dec p = t" "decode_payload dec p \<noteq> []"
    by (simp_all add: decode_payload_def)
  with scan_loop_last_payload[of dec p d found n rows left es']
  show "scan_loop (Some d) dec found n (Frame (rows @ [p]) left # es')
           = Some (Some t, Suc n, Exit_found)" by simp
next
  assume "t \<noteq> []"
  then show "scan_state (Some t) L s =
           (if books_db L t \<noteq> None
            then s\<lparr>selected_isbn := t, confirm_index := 0, current_state := 5\<rparr>
            else s\<lparr>current_state := 0\<rparr>)"
    by (simp add: scan_state_def)
next
  assume n: "dec p = None"
  then show a: "decode_payload dec p = str_bytes p" by (simp add: decode_payload_def)
  show "str_bytes p \<notin> set book_keys" by (rule str_bytes_not_book)
  have ne: "str_bytes p \<noteq> []" by (simp add: str_bytes_def Let_def)
  have b: "books_db (run ops) (str_bytes p) = None"
    by (simp add: books_run_dom str_bytes_not_book)
  then show "books_db (run ops) (decode_payload dec p) = None" by (simp add: a)
  from scan_loop_last_payload[of dec p d found n rows left es'] a ne
  show "scan_loop (Some d) dec found n (Frame (rows @ [p]) left # es')
        = Some (Some (str_bytes p), Suc n, Exit_found)" by simp
  show "scan_state (Some (str_bytes p)) (run ops) s = s\<lparr>current_state := 0\<rparr>"
    using ne b by (simp add: scan_state_def)
qed


theorem payload_decoding_witness:
  "perform_scan (Some Camera) (Some QRDecoder) ascii_decode [Frame [] False, Capture_raises]
     = Some (None, 2, Exit_error) \<and>
   Capture_raises \<in> set [Frame [] False, Capture_raises] \<and>
   ascii_decode ''978-1'' = Some ''978-1'' \<and>
   decode_payload ascii_decode ''978-1'' = ''978-1'' \<and>
   scan_loop (Some QRDecoder) ascii_decode None 0 [Frame [''978-1''] False]
     = Some (Some ''978-1'', Suc 0, Exit_found) \<and>
   scan_state (Some ''978-1'') init_ledger session0
     = session0\<lparr>selected_isbn := ''978-1'', confirm_index := 0, current_state := 5\<rparr> \<and>
   ascii_decode [CHR 0xFF] = None \<and>
   decode_payload ascii_decode [CHR 0xFF]
     = [CHR ''b'', CHR 0x27, CHR 0x5C, CHR ''x'', CHR ''f'', CHR ''f'', CHR 0x27] \<and>
   books_db init_ledger (decode_payload ascii_decode [CHR 0xFF]) = None \<and>
   scan_loop (Some QRDecoder) ascii_decode None (Suc 0) [Frame [[CHR 0xFF]] False]
     = Some (Some (str_bytes [CHR 0xFF]), Suc (Suc 0), Exit_found) \<and>
   scan_state (Some (str_bytes [CHR 0xFF])) init_ledger session0 = session0\<lparr>current_state := 0\<rparr>"
proof -
  have x: "perform_scan (Some Camera) (Some QRDecoder) ascii_decode [Frame [] False, Capture_raises]
     = Some (None, 2, Exit_error)"
    by (simp add: perform_scan_def)
  note x' = payload_decoding[where c = Camera and d = QRDecoder and dec = ascii_decode
      and es = "[Frame [] False, Capture_raises]" and f = None and k = 2,
      THEN conjunct1, THEN mp, OF x]
  have g: "ascii_decode ''978-1'' = Some ''978-1''" by (simp add: ascii_decode_def)
  have gne: "''978-1'' \<noteq> []" by simp
  have r: "run [] = init_ledger" by (simp add: run_def)
  have bk: "books_db init_ledger ''978-1'' \<noteq> None" by (simp add: init_ledger_def books_list_def)
  note y = payload_decoding[where dec = ascii_decode and p = "''978-1''" and t = "''978-1''"
      and d = QRDecoder and found = None and n = 0 and rows = "[]" and left = False
      and es' = "[]" and L = init_ledger and s = session0,
      THEN conjunct2, THEN conjunct1, THEN mp, OF g, unfolded append_Nil]
  note y1 = y[THEN conjunct1]
  note y2 = y[THEN conjunct2, THEN mp, OF gne, THEN conjunct1]
  note y3 = y[THEN conjunct2, THEN mp, OF gne, THEN conjunct2, unfolded if_P[OF bk]]
  have h: "ascii_decode [CHR 0xFF] = None" by (simp add: ascii_decode_def)
  have sb: "str_bytes [CHR 0xFF] = [CHR ''b'', CHR 0x27, CHR 0x5C, CHR ''x'', CHR ''f'', CHR ''f'', CHR 0x27]"
    by (simp add: str_bytes_def bytes_quote_def escape_byte_def hex_digit_def Let_def)
  note z = payload_decoding[where dec = ascii_decode and p = "[CHR 0xFF]" and ops = "[]"
      and d = QRDecoder and found = None and n = "Suc 0" and rows = "[]" and left = False
      and es' = "[]" and s = session0,
      THEN conjunct2, THEN conjunct2, THEN mp, OF h, unfolded append_Nil r]
  note z1 = z[THEN conjunct1]
  note z3 = z[THEN conjunct2, THEN conjunct2, THEN conjunct1]
  note z4 = z[THEN conjunct2, THEN conjunct2, THEN conjunct2, THEN conjunct1]
  note z5 = z[THEN conjunct2, THEN conjunct2, THEN conjunct2, THEN conjunct2]
  have z1': "decode_payload ascii_decode [CHR 0xFF]
     = [CHR ''b'', CHR 0x27, CHR 0x5C, CHR ''x'', CHR ''f'', CHR ''f'', CHR 0x27]"
    using z1 sb by (rule trans)
  show ?thesis by (intro conjI x x' g y1 y2 y3 h z1' z3 z4 z5)
qed

end
